theory Spec2Isabelle
  imports Main "HOL-Library.Sublist"
begin

section \<open>Python strings, slices and dictionaries\<close>

text \<open>
  A Python \<open>str\<close> is a sequence of Unicode code points; indexing, \<open>len\<close>, \<open>find\<close> and
  slicing all count code points. A string is therefore a list of code points, each a
  natural number (\<open>ord\<close> of the character).
\<close>

type_synonym ustr = "nat list"

text \<open>\<open>s.startswith(sub)\<close>.\<close>

fun startswith :: "'a list \<Rightarrow> 'a list \<Rightarrow> bool" where
  "startswith s [] = True"
| "startswith [] (c # sub) = False"
| "startswith (x # s) (c # sub) = (x = c \<and> startswith s sub)"

text \<open>
  \<open>s.find(sub)\<close>: the lowest index at which \<open>sub\<close> occurs in \<open>s\<close>, and \<open>-1\<close> when it
  occurs nowhere.
\<close>

fun str_find :: "'a list \<Rightarrow> 'a list \<Rightarrow> int" where
  "str_find [] sub = (if startswith [] sub then 0 else - 1)"
| "str_find (x # s) sub =
     (if startswith (x # s) sub then 0
      else (let r = str_find s sub in if r = - 1 then - 1 else r + 1))"

text \<open>
  The slices \<open>s[i:]\<close> and \<open>s[:i]\<close>. A negative index counts from the end of the string
  and is clamped at the start; an index beyond the end is clamped at the end.
\<close>

definition slice_from :: "'a list \<Rightarrow> int \<Rightarrow> 'a list" where
  "slice_from s i = (if i < 0 then drop (nat (int (length s) + i)) s else drop (nat i) s)"

definition slice_to :: "'a list \<Rightarrow> int \<Rightarrow> 'a list" where
  "slice_to s i = (if i < 0 then take (nat (int (length s) + i)) s else take (nat i) s)"

text \<open>
  A \<open>dict\<close> keeps its keys in insertion order, and assigning to a key that is already
  there replaces the value in place: an association list with distinct keys.
\<close>

type_synonym ('k, 'v) dict = "('k \<times> 'v) list"

fun dict_set :: "('k, 'v) dict \<Rightarrow> 'k \<Rightarrow> 'v \<Rightarrow> ('k, 'v) dict" where
  "dict_set [] k v = [(k, v)]"
| "dict_set ((k', v') # d) k v =
     (if k' = k then (k', v) # d else (k', v') # dict_set d k v)"

text \<open>\<open>d.get(k)\<close>: the value stored under \<open>k\<close>, and Python's \<open>None\<close> when there is none.\<close>

definition dict_get :: "('k, 'v) dict \<Rightarrow> 'k \<Rightarrow> 'v option" where
  "dict_get d k = map_of d k"

text \<open>\<open>d.update(e)\<close>: every entry of \<open>e\<close>, in its order, is assigned into \<open>d\<close>.\<close>

fun dict_update :: "('k, 'v) dict \<Rightarrow> ('k, 'v) dict \<Rightarrow> ('k, 'v) dict" where
  "dict_update d [] = d"
| "dict_update d ((k, v) # e) = dict_update (dict_set d k v) e"

section \<open>The marker phrases\<close>

text \<open>
  The literals of \<open>main_dash_app.py\<close>, as code points. The Hebrew letters are
  U+05D0..U+05EA; 8234, 8235 and 8236 are the directional formatting characters
  U+202A, U+202B and U+202C; 58 is the colon and 32 the space.
\<close>

definition macro_marker :: ustr where
  "macro_marker = [1514, 1488, 1493, 1512, 32, 1502, 1488, 1511, 1512, 1493, 1505, 1511,
     1493, 1508, 1497, 8234, 58, 8236, 8236]"

definition diagnosis_marker :: ustr where
  "diagnosis_marker = [1488, 1489, 1495, 1504, 1492, 8234, 58, 8236, 8236]"

definition prev_tests_marker :: ustr where
  "prev_tests_marker = [8235, 1489, 1491, 1497, 1511, 1493, 1514, 32, 1511, 1493, 1491,
     1502, 1493, 1514, 8234, 58]"

definition clinical_info_marker :: ustr where
  "clinical_info_marker = [8235, 1508, 1512, 1496, 1497, 1501, 32, 1511, 1500, 1497, 1504,
     1497, 1497, 1501, 8234, 58]"

definition print_date_marker :: ustr where
  "print_date_marker = [1514, 1488, 1512, 1497, 1498, 32, 1492, 1491, 1508, 1505, 1492,
     8234, 58, 8236, 8236]"

text \<open>
  \<open>prefix_options\<close> of \<open>get_partial_content\<close>, the markers that begin the body. The
  second and third differ from the markers of \<open>get_pathology_body_parts\<close> in their
  directional characters.
\<close>

definition prefix_options :: "ustr list" where
  "prefix_options =
    [[8235, 1508, 1512, 1496, 1497, 1501, 32, 1511, 1500, 1497, 1504, 1497, 1497, 1501,
      8234, 58],
     [1489, 1491, 1497, 1511, 1493, 1514, 32, 1511, 1493, 1491, 1502, 1493, 1514, 8234,
      58, 8236, 8236],
     [8235, 1488, 1489, 1495, 1504, 1492, 8234, 58, 8236, 8236]]"

section \<open>Section segmentation\<close>

text \<open>
  A value of the returned dictionaries is a string or, where \<open>dict.get\<close> finds no entry,
  Python's \<open>None\<close>: \<open>Some s\<close> is the string \<open>s\<close>.
\<close>

type_synonym section_map = "(string, ustr option) dict"

text \<open>
  Lines 53 to 76 of \<open>get_pathology_body_parts\<close>: the four search blocks, in the order
  of the source. The result holds the locals the rest of the function reads: what is
  left of \<open>body\<close>, \<open>body_parts_dict\<close>, and the four indices.
\<close>

definition carve_body ::
  "ustr \<Rightarrow> ustr \<times> (string, ustr) dict \<times> int \<times> int \<times> int \<times> int" where
  "carve_body body0 =
    (let body_parts_dict0 = [];
         macro_prefix_index = str_find body0 macro_marker;
         body_parts_dict1 =
           (if macro_prefix_index \<noteq> - 1
            then dict_set body_parts_dict0 ''Macroscopic Description''
                   (slice_from body0 macro_prefix_index)
            else body_parts_dict0);
         body1 = (if macro_prefix_index \<noteq> - 1 then slice_to body0 macro_prefix_index
                  else body0);
         diagnosis_prefix_index = str_find body1 diagnosis_marker;
         body_parts_dict2 =
           (if diagnosis_prefix_index \<noteq> - 1
            then dict_set body_parts_dict1 ''Diagnosis''
                   (slice_from body1 diagnosis_prefix_index)
            else body_parts_dict1);
         body2 = (if diagnosis_prefix_index \<noteq> - 1
                  then slice_to body1 diagnosis_prefix_index else body1);
         prev_tests_prefix_index = str_find body2 prev_tests_marker;
         body_parts_dict3 =
           (if prev_tests_prefix_index \<noteq> - 1
            then dict_set body_parts_dict2 ''Previous Tests''
                   (slice_from body2 prev_tests_prefix_index)
            else body_parts_dict2);
         body3 = (if prev_tests_prefix_index \<noteq> - 1
                  then slice_to body2 prev_tests_prefix_index else body2);
         clinical_info_prefix_index = str_find body3 clinical_info_marker;
         body_parts_dict4 =
           (if clinical_info_prefix_index \<noteq> - 1
            then dict_set body_parts_dict3 ''Clinical Information''
                   (slice_from body3 clinical_info_prefix_index)
            else body_parts_dict3);
         body4 = (if clinical_info_prefix_index \<noteq> - 1
                  then slice_to body3 clinical_info_prefix_index else body3)
     in (body4, body_parts_dict4, macro_prefix_index, diagnosis_prefix_index,
         prev_tests_prefix_index, clinical_info_prefix_index))"

text \<open>
  \<open>get_pathology_body_parts\<close>: lines 78 to 87 build the answer from the four indices,
  in the order Clinical Information, Previous Tests, Diagnosis, Macroscopic Description.
\<close>

definition get_pathology_body_parts :: "ustr \<Rightarrow> section_map" where
  "get_pathology_body_parts body0 =
    (case carve_body body0 of
       (body, body_parts_dict, macro_prefix_index, diagnosis_prefix_index,
        prev_tests_prefix_index, clinical_info_prefix_index) \<Rightarrow>
      (let ans0 = [];
           ans1 = (if clinical_info_prefix_index \<noteq> - 1
                   then dict_set ans0 ''Clinical Information''
                          (dict_get body_parts_dict ''Clinical Information'')
                   else ans0);
           ans2 = (if prev_tests_prefix_index \<noteq> - 1
                   then dict_set ans1 ''Previous Tests''
                          (dict_get body_parts_dict ''Previous Tests'')
                   else ans1);
           ans3 = (if diagnosis_prefix_index \<noteq> - 1
                   then dict_set ans2 ''Diagnosis'' (dict_get body_parts_dict ''Diagnosis'')
                   else ans2);
           ans4 = (if macro_prefix_index \<noteq> - 1
                   then dict_set ans3 ''Macroscopic Description''
                          (dict_get body_parts_dict ''Macroscopic Description'')
                   else ans3)
       in ans4))"

text \<open>
  The loop of \<open>get_partial_content\<close> over \<open>prefix_options\<close> (lines 96 to 103): the first
  option that occurs in the text splits it, and the loop stops there. With no option
  found, \<open>header\<close> and \<open>body\<close> keep the empty strings they were initialised with.
\<close>

fun split_header_body :: "ustr list \<Rightarrow> ustr \<Rightarrow> ustr \<times> ustr" where
  "split_header_body [] original_content = ([], [])"
| "split_header_body (p # ps) original_content =
     (let prefix_index = str_find original_content p
      in if prefix_index \<noteq> - 1
         then (slice_to original_content prefix_index,
               slice_from original_content prefix_index)
         else split_header_body ps original_content)"

text \<open>\<open>get_partial_content\<close>, lines 104 to 112 after the loop.\<close>

definition get_partial_content :: "ustr \<Rightarrow> section_map" where
  "get_partial_content original_content =
    (case split_header_body prefix_options original_content of
       (header, body0) \<Rightarrow>
      (let postfix_index = str_find body0 print_date_marker;
           footer = slice_from body0 postfix_index;
           body = slice_to body0 postfix_index;
           body_parts = get_pathology_body_parts body;
           head_foot = [(''General Information'', Some header)];
           z0 = head_foot;
           z1 = dict_update z0 body_parts;
           z2 = dict_set z1 ''Document Footer Information'' (Some footer)
       in z2))"

section \<open>Text extraction\<close>

text \<open>
  \<open>sep.join(xs)\<close>, \<open>s.strip()\<close>, \<open>s.split(c)\<close>, \<open>s.lower()\<close> and \<open>s.endswith(suf)\<close>.
  \<open>isspace\<close> is the set of code points that \<open>strip\<close> removes. \<open>lower\<close> maps the
  ASCII capitals only: the case mapping of no other code point yields one of the
  characters of \<open>.pdf\<close>, the only text \<open>lower\<close> is compared with here.
\<close>

fun join :: "'a list \<Rightarrow> 'a list list \<Rightarrow> 'a list" where
  "join sep [] = []"
| "join sep [x] = x"
| "join sep (x # y # ys) = x @ sep @ join sep (y # ys)"

definition isspace :: "nat \<Rightarrow> bool" where
  "isspace c \<longleftrightarrow>
     (9 \<le> c \<and> c \<le> 13) \<or> (28 \<le> c \<and> c \<le> 32) \<or> c = 133 \<or> c = 160 \<or> c = 5760 \<or>
     (8192 \<le> c \<and> c \<le> 8202) \<or> c = 8232 \<or> c = 8233 \<or> c = 8239 \<or> c = 8287 \<or>
     c = 12288"

definition strip :: "ustr \<Rightarrow> ustr" where
  "strip s = rev (dropWhile isspace (rev (dropWhile isspace s)))"

fun split_on :: "'a \<Rightarrow> 'a list \<Rightarrow> 'a list list" where
  "split_on c [] = [[]]"
| "split_on c (x # xs) =
     (if x = c then [] # split_on c xs
      else (case split_on c xs of [] \<Rightarrow> [[x]] | w # ws \<Rightarrow> (x # w) # ws))"

definition lower :: "ustr \<Rightarrow> ustr" where
  "lower s = map (\<lambda>c. if 65 \<le> c \<and> c \<le> 90 then c + 32 else c) s"

definition endswith :: "'a list \<Rightarrow> 'a list \<Rightarrow> bool" where
  "endswith s suf = startswith (rev s) (rev suf)"

text \<open>
  The libraries the program calls are parameters of the model: base64 decoding, the
  text layer of a PDF (\<open>pdftotext.PDF\<close>, one string per page), rasterisation
  (\<open>convert_from_bytes\<close>, one image per page) and recognition
  (\<open>pytesseract.image_to_string\<close>). Each of them may raise, which is \<open>None\<close>.
\<close>

type_synonym bytes = "nat list"

record 'img capabilities =
  b64decode :: "ustr \<Rightarrow> bytes option"
  pdftotext_PDF :: "bytes \<Rightarrow> ustr list option"
  convert_from_bytes :: "bytes \<Rightarrow> 'img list option"
  image_to_string :: "'img \<Rightarrow> ustr option"

text \<open>
  A run yields the calls it made to the three extraction capabilities, in order, and
  either the exception that ended it or its value.
\<close>

datatype event = NativeText | Rasterize | Recognize

datatype error = PreventUpdate | ValueError | DecodeError | ExtractionError

type_synonym 'a run = "event list \<times> (error + 'a)"

definition then_run :: "'a run \<Rightarrow> ('a \<Rightarrow> 'b run) \<Rightarrow> 'b run" where
  "then_run m f =
     (case m of
        (log, Inl e) \<Rightarrow> (log, Inl e)
      | (log, Inr x) \<Rightarrow> (case f x of (log', r) \<Rightarrow> (log @ log', r)))"

definition pdf_to_images :: "'img capabilities \<Rightarrow> bytes \<Rightarrow> 'img list run" where
  "pdf_to_images env pdf_b =
     ([Rasterize],
      case convert_from_bytes env pdf_b of
        None \<Rightarrow> Inl ExtractionError
      | Some images \<Rightarrow> Inr images)"

text \<open>The list comprehension of \<open>extract_text_from_images\<close>: one call for each image.\<close>

fun text_per_page :: "'img capabilities \<Rightarrow> 'img list \<Rightarrow> ustr list run" where
  "text_per_page env [] = ([], Inr [])"
| "text_per_page env (img # images) =
     (case image_to_string env img of
        None \<Rightarrow> ([Recognize], Inl ExtractionError)
      | Some page \<Rightarrow>
         (case text_per_page env images of
            (log, Inl e) \<Rightarrow> (Recognize # log, Inl e)
          | (log, Inr pages) \<Rightarrow> (Recognize # log, Inr (page # pages))))"

definition extract_text_from_images :: "'img capabilities \<Rightarrow> 'img list \<Rightarrow> ustr run" where
  "extract_text_from_images env images =
     then_run (text_per_page env images) (\<lambda>pages. ([], Inr (join [10] pages)))"

definition extract_text_from_pdf :: "'img capabilities \<Rightarrow> bytes \<Rightarrow> ustr run" where
  "extract_text_from_pdf env file_content =
     ([NativeText],
      case pdftotext_PDF env file_content of
        None \<Rightarrow> Inl ExtractionError
      | Some pdf \<Rightarrow> Inr (join [10, 10] pdf))"

text \<open>
  Lines 245 to 257 of \<open>update_output_tab1\<close>, which \<open>update_output_tab2\<close> repeats as its
  lines 269 to 281: the upload is \<open>None\<close> or a string \<open>type,base64\<close>; 44 is the comma,
  and \<open>[46, 112, 100, 102]\<close> is \<open>.pdf\<close>.
\<close>

definition upload_text :: "'img capabilities \<Rightarrow> ustr option \<Rightarrow> ustr \<Rightarrow> ustr run" where
  "upload_text env file_content file_name =
     (case file_content of
        None \<Rightarrow> ([], Inl PreventUpdate)
      | Some contents \<Rightarrow>
         (case split_on 44 contents of
            [content_type, content_string] \<Rightarrow>
              (case b64decode env content_string of
                 None \<Rightarrow> ([], Inl DecodeError)
               | Some decoded \<Rightarrow>
                   if endswith (lower file_name) [46, 112, 100, 102]
                   then then_run (extract_text_from_pdf env decoded)
                          (\<lambda>text. if strip text = [] \<or> length text < 20
                                   then then_run (pdf_to_images env decoded)
                                          (extract_text_from_images env)
                                   else ([], Inr text))
                   else ([], Inl PreventUpdate))
          | _ \<Rightarrow> ([], Inl ValueError)))"

definition update_output_tab1 ::
  "'img capabilities \<Rightarrow> ustr option \<Rightarrow> ustr \<Rightarrow> ustr run" where
  "update_output_tab1 env file_content file_name = upload_text env file_content file_name"

text \<open>
  \<open>update_output_tab2\<close> up to \<open>ans_parts\<close>, whose entries it renders as cards in their
  order: the text is put between \<open>'\<close> U+202B \<open>'\<close> and \<open>'\<close> U+202C \<open>'\<close> (39 is the
  apostrophe), as the f-string of line 283 writes it, and segmented.
\<close>

definition update_output_tab2 ::
  "'img capabilities \<Rightarrow> ustr option \<Rightarrow> ustr \<Rightarrow> section_map run" where
  "update_output_tab2 env file_content file_name =
     then_run (upload_text env file_content file_name)
       (\<lambda>text. ([], Inr (get_partial_content ([39, 8235, 39] @ text @ [39, 8236, 39]))))"

text \<open>
  An example of the capabilities, for concrete runs: base64 decoding gives the code
  points back as bytes, the text layer of a PDF is its bytes on one page, a page image
  is the text it shows, which recognition returns, and every PDF has two page images,
  showing \<open>a\<close> and \<open>b\<close>.
\<close>

definition example_capabilities :: "ustr capabilities" where
  "example_capabilities =
     \<lparr>b64decode = Some,
      pdftotext_PDF = (\<lambda>pdf. Some [pdf]),
      convert_from_bytes = (\<lambda>pdf. Some [[97], [98]]),
      image_to_string = Some\<rparr>"

section \<open>The segmentation rule, as the specification words it\<close>

text \<open>
  The section names with their markers, in the order in which
  \<open>get_pathology_body_parts\<close> searches for them.
\<close>

definition body_markers :: "(string \<times> ustr) list" where
  "body_markers =
    [(''Macroscopic Description'', macro_marker),
     (''Diagnosis'', diagnosis_marker),
     (''Previous Tests'', prev_tests_marker),
     (''Clinical Information'', clinical_info_marker)]"

text \<open>
  One step of the rule of the specification: find the marker in the remaining
  unconsumed prefix; if it is found, everything from its position to the end of the
  remaining text is the section's content, and the remaining text is truncated to
  exclude it.
\<close>

fun segment_step ::
  "ustr \<times> (string, ustr) dict \<Rightarrow> string \<times> ustr \<Rightarrow> ustr \<times> (string, ustr) dict" where
  "segment_step (remaining, collected) (name, marker) =
     (let position = str_find remaining marker
      in if position = - 1 then (remaining, collected)
         else (take (nat position) remaining,
               collected @ [(name, drop (nat position) remaining)]))"

text \<open>The fold over the priority list, carrying the remaining text and the sections.\<close>

definition segment_spec :: "ustr \<Rightarrow> ustr \<times> (string, ustr) dict" where
  "segment_spec body = foldl segment_step (body, []) body_markers"

section \<open>Notions for the statements\<close>

text \<open>Whether some marker of \<open>prefix_options\<close> occurs in the text.\<close>

definition body_begins :: "ustr \<Rightarrow> bool" where
  "body_begins original_content =
     list_ex (\<lambda>p. str_find original_content p \<noteq> - 1) prefix_options"

text \<open>
  What \<open>get_partial_content\<close> hands to \<open>get_pathology_body_parts\<close>, and what that
  function leaves in its local \<open>body\<close> after the last search block: the text in front
  of the first section it found, which goes into no entry of the result.
\<close>

definition working_body :: "ustr \<Rightarrow> ustr" where
  "working_body original_content =
     (case split_header_body prefix_options original_content of
        (header, body0) \<Rightarrow> slice_to body0 (str_find body0 print_date_marker))"


section \<open>Properties\<close>

subsection \<open>Searching and slicing\<close>

lemma startswith_iff_prefix: "startswith s sub \<longleftrightarrow> prefix sub s"
  by (induction s sub rule: startswith.induct) auto

lemma str_find_range: "str_find s sub = - 1 \<or> (0 \<le> str_find s sub \<and> str_find s sub \<le> int (length s))"
  by (induction s) (auto simp: Let_def)

lemma str_find_nonneg: "str_find s sub \<noteq> - 1 \<Longrightarrow> 0 \<le> str_find s sub"
  using str_find_range [of s sub] by auto

lemma slice_from_found:
  "str_find s sub \<noteq> - 1 \<Longrightarrow> slice_from s (str_find s sub) = drop (nat (str_find s sub)) s"
  using str_find_nonneg [of s sub] by (simp add: slice_from_def)

lemma slice_to_found:
  "str_find s sub \<noteq> - 1 \<Longrightarrow> slice_to s (str_find s sub) = take (nat (str_find s sub)) s"
  using str_find_nonneg [of s sub] by (simp add: slice_to_def)

lemma dict_set_fresh: "k \<notin> fst ` set d \<Longrightarrow> dict_set d k v = d @ [(k, v)]"
  by (induction d) auto

lemma str_find_startswith:
  "str_find s sub \<noteq> - 1 \<Longrightarrow> startswith (drop (nat (str_find s sub)) s) sub"
proof (induction s)
  case Nil
  then show ?case by (simp split: if_splits)
next
  case (Cons x s)
  show ?case
  proof (cases "startswith (x # s) sub")
    case True
    then show ?thesis by simp
  next
    case False
    with Cons.prems have ne: "str_find s sub \<noteq> - 1"
      by (auto simp: Let_def split: if_splits)
    then have "0 \<le> str_find s sub" by (rule str_find_nonneg)
    then have "nat (str_find s sub + 1) = Suc (nat (str_find s sub))" by simp
    with False ne Cons.IH show ?thesis by (simp add: Let_def)
  qed
qed

lemma str_find_least:
  "str_find s sub \<noteq> - 1 \<Longrightarrow> int j < str_find s sub \<Longrightarrow> \<not> startswith (drop j s) sub"
proof (induction s arbitrary: j)
  case Nil
  then show ?case by (simp split: if_splits)
next
  case (Cons x s)
  show ?case
  proof (cases "startswith (x # s) sub")
    case True
    with Cons.prems show ?thesis by simp
  next
    case False
    with Cons.prems have ne: "str_find s sub \<noteq> - 1"
      by (auto simp: Let_def split: if_splits)
    show ?thesis
    proof (cases j)
      case 0
      with False show ?thesis by simp
    next
      case (Suc k)
      with Cons.prems False ne have "int k < str_find s sub" by (simp add: Let_def)
      with Cons.IH ne Suc show ?thesis by simp
    qed
  qed
qed

lemma str_find_absent:
  "str_find s sub = - 1 \<Longrightarrow> \<not> startswith (drop j s) sub"
proof (induction s arbitrary: j)
  case Nil
  then show ?case by (simp split: if_splits)
next
  case (Cons x s)
  then have a: "\<not> startswith (x # s) sub" and b: "str_find s sub = - 1"
    using str_find_nonneg [of s sub] by (auto simp: Let_def split: if_splits)
  show ?case
  proof (cases j)
    case 0
    with a show ?thesis by simp
  next
    case (Suc k)
    with Cons.IH b show ?thesis by simp
  qed
qed

lemma startswith_take:
  "startswith (drop j (take n s)) sub \<Longrightarrow> startswith (drop j s) sub"
proof -
  assume "startswith (drop j (take n s)) sub"
  then have "prefix sub (take (n - j) (drop j s))"
    by (simp add: startswith_iff_prefix drop_take)
  then have "prefix sub (drop j s)"
    using prefix_order.trans take_is_prefix by blast
  then show ?thesis by (simp add: startswith_iff_prefix)
qed

lemma str_find_take_absent:
  assumes "str_find s sub = - 1"
  shows "str_find (take n s) sub = - 1"
proof (rule ccontr)
  assume "str_find (take n s) sub \<noteq> - 1"
  then have "startswith (drop (nat (str_find (take n s) sub)) (take n s)) sub"
    by (rule str_find_startswith)
  then have "startswith (drop (nat (str_find (take n s) sub)) s) sub"
    by (rule startswith_take)
  with assms show False using str_find_absent by blast
qed

lemma str_find_drop_absent:
  assumes "str_find s sub = - 1"
  shows "str_find (drop n s) sub = - 1"
proof (rule ccontr)
  assume "str_find (drop n s) sub \<noteq> - 1"
  then have "startswith (drop (nat (str_find (drop n s) sub)) (drop n s)) sub"
    by (rule str_find_startswith)
  then have "startswith (drop (nat (str_find (drop n s) sub) + n) s) sub"
    by simp
  with assms show False using str_find_absent by blast
qed


subsection \<open>The source against the rule\<close>

text \<open>One search block of the source is one step of the rule.\<close>

lemma search_block_step:
  assumes "name \<notin> fst ` set d" and "i = str_find b marker"
  shows "segment_step (b, d) (name, marker) =
     (if i \<noteq> - 1 then slice_to b i else b,
      if i \<noteq> - 1 then dict_set d name (slice_from b i) else d)"
  using assms by (simp add: Let_def slice_from_found slice_to_found dict_set_fresh)

lemma dict_set_keys: "fst ` set (dict_set d k v) = insert k (fst ` set d)"
  by (induction d k v rule: dict_set.induct) auto

lemma search_block_keys:
  "fst ` set (if i \<noteq> - 1 then dict_set d name v else d) \<subseteq> insert name (fst ` set d)"
  by (auto simp: dict_set_keys)

lemma carve_body_spec:
  "fst (carve_body body) = fst (segment_spec body)" (is ?remaining)
  "fst (snd (carve_body body)) = snd (segment_spec body)" (is ?collected)
  "get_pathology_body_parts body =
     map (\<lambda>(name, content). (name, Some content)) (rev (snd (segment_spec body)))" (is ?answer)
proof -
  define mi where "mi = str_find body macro_marker"
  define d1 where "d1 = (if mi \<noteq> - 1
     then dict_set [] ''Macroscopic Description'' (slice_from body mi) else [])"
  define b1 where "b1 = (if mi \<noteq> - 1 then slice_to body mi else body)"
  define di where "di = str_find b1 diagnosis_marker"
  define d2 where "d2 = (if di \<noteq> - 1
     then dict_set d1 ''Diagnosis'' (slice_from b1 di) else d1)"
  define b2 where "b2 = (if di \<noteq> - 1 then slice_to b1 di else b1)"
  define pi where "pi = str_find b2 prev_tests_marker"
  define d3 where "d3 = (if pi \<noteq> - 1
     then dict_set d2 ''Previous Tests'' (slice_from b2 pi) else d2)"
  define b3 where "b3 = (if pi \<noteq> - 1 then slice_to b2 pi else b2)"
  define ci where "ci = str_find b3 clinical_info_marker"
  define d4 where "d4 = (if ci \<noteq> - 1
     then dict_set d3 ''Clinical Information'' (slice_from b3 ci) else d3)"
  define b4 where "b4 = (if ci \<noteq> - 1 then slice_to b3 ci else b3)"
  have cb: "carve_body body = (b4, d4, mi, di, pi, ci)"
    unfolding carve_body_def Let_def b4_def d4_def ci_def b3_def d3_def pi_def b2_def d2_def
      di_def b1_def d1_def mi_def by (rule refl)
  have k1: "fst ` set d1 \<subseteq> {''Macroscopic Description''}"
    by (auto simp: d1_def)
  have k2: "fst ` set d2 \<subseteq> {''Diagnosis'', ''Macroscopic Description''}"
    unfolding d2_def using search_block_keys [of di d1 "''Diagnosis''"] k1 by blast
  have k3: "fst ` set d3 \<subseteq> {''Previous Tests'', ''Diagnosis'', ''Macroscopic Description''}"
    unfolding d3_def using search_block_keys [of pi d2 "''Previous Tests''"] k2 by blast
  have s1: "segment_step (body, []) (''Macroscopic Description'', macro_marker) = (b1, d1)"
    unfolding b1_def d1_def by (rule search_block_step) (simp_all add: mi_def)
  have s2: "segment_step (b1, d1) (''Diagnosis'', diagnosis_marker) = (b2, d2)"
    unfolding b2_def d2_def using k1 by (intro search_block_step) (auto simp: di_def)
  have s3: "segment_step (b2, d2) (''Previous Tests'', prev_tests_marker) = (b3, d3)"
    unfolding b3_def d3_def using k2 by (intro search_block_step) (auto simp: pi_def)
  have s4: "segment_step (b3, d3) (''Clinical Information'', clinical_info_marker) = (b4, d4)"
    unfolding b4_def d4_def using k3 by (intro search_block_step) (auto simp: ci_def)
  have spec: "segment_spec body = (b4, d4)"
    by (simp only: segment_spec_def body_markers_def foldl.simps s1 s2 s3 s4)
  from cb spec show ?remaining and ?collected by simp_all
  define v1 where "v1 = slice_from body mi"
  define v2 where "v2 = slice_from b1 di"
  define v3 where "v3 = slice_from b2 pi"
  define v4 where "v4 = slice_from b3 ci"
  have h1: "d1 = (if mi \<noteq> - 1 then [(''Macroscopic Description'', v1)] else [])"
    by (simp add: d1_def v1_def)
  have h2: "d2 = d1 @ (if di \<noteq> - 1 then [(''Diagnosis'', v2)] else [])"
    using k1 by (auto simp: d2_def v2_def intro!: dict_set_fresh)
  have h3: "d3 = d2 @ (if pi \<noteq> - 1 then [(''Previous Tests'', v3)] else [])"
    using k2 by (auto simp: d3_def v3_def intro!: dict_set_fresh)
  have h4: "d4 = d3 @ (if ci \<noteq> - 1 then [(''Clinical Information'', v4)] else [])"
    using k3 by (auto simp: d4_def v4_def intro!: dict_set_fresh)
  have "get_pathology_body_parts body =
     map (\<lambda>(name, content). (name, Some content)) (rev d4)"
    by (simp add: get_pathology_body_parts_def cb Let_def dict_get_def h4 h3 h2 h1)
  with spec show ?answer by simp
qed


subsection \<open>The fold of the rule\<close>

lemma segment_step_acc:
  "segment_step (r, c) x =
     (fst (segment_step (r, []) x), c @ snd (segment_step (r, []) x))"
  by (cases x) (simp add: Let_def)

lemma segment_fold_acc:
  "foldl segment_step (r, c) ms =
     (fst (foldl segment_step (r, []) ms), c @ snd (foldl segment_step (r, []) ms))"
proof (induction ms arbitrary: r c)
  case Nil
  show ?case by simp
next
  case (Cons x ms)
  obtain r1 e1 where s: "segment_step (r, []) x = (r1, e1)" by (cases "segment_step (r, []) x")
  have "segment_step (r, c) x = (r1, c @ e1)"
    using segment_step_acc [of r c x] s by simp
  with s show ?case
    using Cons.IH [of r1 "c @ e1"] Cons.IH [of r1 e1] by simp
qed

lemma segment_fold_Cons:
  "foldl segment_step (r, []) ((name, marker) # ms) =
     (if str_find r marker = - 1 then foldl segment_step (r, []) ms
      else (fst (foldl segment_step (take (nat (str_find r marker)) r, []) ms),
            (name, drop (nat (str_find r marker)) r) #
            snd (foldl segment_step (take (nat (str_find r marker)) r, []) ms)))"
  using segment_fold_acc [of "take (nat (str_find r marker)) r"
      "[(name, drop (nat (str_find r marker)) r)]" ms]
  by (simp add: Let_def)


lemma segment_fold_marker:
  "(name, v) \<in> set (snd (foldl segment_step (r, []) ms)) \<Longrightarrow>
     \<exists>marker. (name, marker) \<in> set ms \<and> startswith v marker"
proof (induction ms arbitrary: r)
  case Nil
  then show ?case by simp
next
  case (Cons x ms)
  obtain n m where x: "x = (n, m)" by (cases x)
  show ?case
  proof (cases "str_find r m = - 1")
    case True
    with Cons.prems have "(name, v) \<in> set (snd (foldl segment_step (r, []) ms))"
      by (simp add: x segment_fold_Cons del: foldl.simps)
    from Cons.IH [OF this] show ?thesis by auto
  next
    case False
    with Cons.prems consider "name = n \<and> v = drop (nat (str_find r m)) r"
      | "(name, v) \<in> set (snd (foldl segment_step (take (nat (str_find r m)) r, []) ms))"
      by (auto simp add: x segment_fold_Cons simp del: foldl.simps)
    then show ?thesis
    proof cases
      case 1
      with False show ?thesis using str_find_startswith [of r m] by (auto simp: x)
    next
      case 2
      from Cons.IH [OF this] show ?thesis by auto
    qed
  qed
qed

lemma segment_fold_keys:
  "fst ` set (snd (foldl segment_step (r, []) ms)) \<subseteq> fst ` set ms"
proof
  fix k
  assume "k \<in> fst ` set (snd (foldl segment_step (r, []) ms))"
  then obtain v where "(k, v) \<in> set (snd (foldl segment_step (r, []) ms))" by auto
  then obtain marker where "(k, marker) \<in> set ms" using segment_fold_marker by blast
  then show "k \<in> fst ` set ms" by force
qed

lemma segment_fold_order:
  "distinct (map fst ms) \<Longrightarrow>
     map fst (snd (foldl segment_step (r, []) ms)) =
       filter (\<lambda>k. k \<in> fst ` set (snd (foldl segment_step (r, []) ms))) (map fst ms)"
proof (induction ms arbitrary: r)
  case Nil
  show ?case by simp
next
  case (Cons x ms)
  obtain n m where x: "x = (n, m)" by (cases x)
  from Cons.prems have d: "distinct (map fst ms)" and nn: "n \<notin> fst ` set ms"
    by (simp_all add: x)
  have fresh: "n \<notin> fst ` set (snd (foldl segment_step (r', []) ms))" for r'
    using segment_fold_keys [of r' ms] nn by blast
  show ?case
  proof (cases "str_find r m = - 1")
    case True
    then show ?thesis
      using Cons.IH [OF d, of r] fresh [of r]
      by (simp add: x segment_fold_Cons del: foldl.simps)
  next
    case False
    let ?new = "snd (foldl segment_step (take (nat (str_find r m)) r, []) ms)"
    have "filter (\<lambda>k. k = n \<or> k \<in> fst ` set ?new) (map fst ms) =
          filter (\<lambda>k. k \<in> fst ` set ?new) (map fst ms)"
      using nn by (intro filter_cong) auto
    with False show ?thesis
      using Cons.IH [OF d, of "take (nat (str_find r m)) r"]
      by (simp add: x segment_fold_Cons del: foldl.simps)
  qed
qed

lemma segment_fold_absent:
  "(name, marker) \<in> set ms \<Longrightarrow> distinct (map fst ms) \<Longrightarrow> str_find r marker = - 1 \<Longrightarrow>
     name \<notin> fst ` set (snd (foldl segment_step (r, []) ms))"
proof (induction ms arbitrary: r)
  case Nil
  then show ?case by simp
next
  case (Cons x ms)
  obtain n m where x: "x = (n, m)" by (cases x)
  from Cons.prems have d: "distinct (map fst ms)" and nn: "n \<notin> fst ` set ms"
    by (simp_all add: x)
  have fresh: "n \<notin> fst ` set (snd (foldl segment_step (r', []) ms))" for r'
    using segment_fold_keys [of r' ms] nn by blast
  show ?case
  proof (cases "(name, marker) = (n, m)")
    case True
    with Cons.prems(3) fresh [of r] show ?thesis
      by (simp add: x segment_fold_Cons del: foldl.simps)
  next
    case False
    with Cons.prems(1) have mem: "(name, marker) \<in> set ms" by (auto simp: x)
    then have "name \<noteq> n" using nn by (force simp: image_iff)
    moreover have "name \<notin> fst ` set (snd (foldl segment_step (r', []) ms))"
      if "str_find r' marker = - 1" for r'
      using Cons.IH [OF mem d that] .
    ultimately show ?thesis
      using Cons.prems(3) str_find_take_absent [OF Cons.prems(3)]
      by (simp add: x segment_fold_Cons del: foldl.simps)
  qed
qed

lemma segment_step_shrinks: "prefix (fst (segment_step s x)) (fst s)"
  by (cases s, cases x) (simp add: Let_def take_is_prefix)

lemma segment_fold_shrinks: "prefix (fst (foldl segment_step s ms)) (fst s)"
proof (induction ms arbitrary: s)
  case Nil
  show ?case by simp
next
  case (Cons x ms)
  have "prefix (fst (foldl segment_step (segment_step s x) ms)) (fst (segment_step s x))"
    by (rule Cons.IH)
  also have "prefix (fst (segment_step s x)) (fst s)" by (rule segment_step_shrinks)
  finally show ?case by simp
qed

subsection \<open>The assembled map\<close>

lemma body_markers_names:
  "map fst body_markers =
     [''Macroscopic Description'', ''Diagnosis'', ''Previous Tests'', ''Clinical Information'']"
  by (simp add: body_markers_def)

lemma body_markers_distinct: "distinct (map fst body_markers)"
  by (simp add: body_markers_names)

lemma segment_spec_keys:
  "fst ` set (snd (segment_spec body)) \<subseteq>
     {''Macroscopic Description'', ''Diagnosis'', ''Previous Tests'', ''Clinical Information''}"
proof -
  have "fst ` set body_markers = set (map fst body_markers)" by simp
  then show ?thesis
    unfolding segment_spec_def using segment_fold_keys [of body body_markers]
    by (simp only: body_markers_names) auto
qed

lemma segment_spec_distinct: "distinct (map fst (snd (segment_spec body)))"
  unfolding segment_spec_def
  by (subst segment_fold_order [OF body_markers_distinct])
    (rule distinct_filter [OF body_markers_distinct])

lemma dict_update_fresh:
  "distinct (map fst e) \<Longrightarrow> fst ` set e \<inter> fst ` set d = {} \<Longrightarrow> dict_update d e = d @ e"
proof (induction e arbitrary: d)
  case Nil
  show ?case by simp
next
  case (Cons x e)
  obtain k v where x: "x = (k, v)" by (cases x)
  from Cons.prems have k: "k \<notin> fst ` set d" and d: "distinct (map fst e)"
    and ke: "k \<notin> fst ` set e" and e: "fst ` set e \<inter> fst ` set d = {}"
    by (auto simp: x)
  from e ke have "fst ` set e \<inter> fst ` set (d @ [(k, v)]) = {}" by auto
  with Cons.IH [OF d, of "d @ [(k, v)]"] show ?case
    by (simp add: x dict_set_fresh [OF k])
qed

lemma get_partial_content_entries:
  "get_partial_content t =
     (case split_header_body prefix_options t of
        (header, body0) \<Rightarrow>
          (''General Information'', Some header) #
          map (\<lambda>(name, content). (name, Some content)) (rev (snd (segment_spec (working_body t)))) @
          [(''Document Footer Information'',
            Some (slice_from body0 (str_find body0 print_date_marker)))])"
proof -
  obtain header body0 where sp: "split_header_body prefix_options t = (header, body0)"
    by (cases "split_header_body prefix_options t")
  define secs where
    "secs = map (\<lambda>(name, content). (name, Some content)) (rev (snd (segment_spec (working_body t))))"
  have keys: "map fst secs = rev (map fst (snd (segment_spec (working_body t))))"
    by (simp add: secs_def rev_map case_prod_unfold comp_def)
  have sub: "fst ` set secs \<subseteq>
     {''Macroscopic Description'', ''Diagnosis'', ''Previous Tests'', ''Clinical Information''}"
  proof -
    have "fst ` set secs = set (map fst secs)" by simp
    also have "\<dots> = fst ` set (snd (segment_spec (working_body t)))" by (simp add: keys)
    finally show ?thesis using segment_spec_keys [of "working_body t"] by simp
  qed
  have dist: "distinct (map fst secs)"
    using segment_spec_distinct [of "working_body t"] by (simp add: keys)
  have "fst ` set secs \<inter> fst ` set [(''General Information'', Some header)] = {}"
    using sub by auto
  then have upd: "dict_update [(''General Information'', Some header)] secs =
      (''General Information'', Some header) # secs"
    using dict_update_fresh [OF dist] by simp
  have "''Document Footer Information'' \<notin> fst ` set ((''General Information'', Some header) # secs)"
    using sub by auto
  then have "dict_set ((''General Information'', Some header) # secs)
       ''Document Footer Information'' v =
     ((''General Information'', Some header) # secs) @ [(''Document Footer Information'', v)]" for v
    by (rule dict_set_fresh)
  with upd have
    "get_partial_content t = (''General Information'', Some header) # secs @
       [(''Document Footer Information'',
         Some (slice_from body0 (str_find body0 print_date_marker)))]"
    unfolding get_partial_content_def sp prod.case Let_def
    by (simp add: carve_body_spec(3) working_body_def sp secs_def)
  then show ?thesis by (simp add: sp secs_def)
qed

lemma split_header_body_find:
  "split_header_body ps t =
     (case List.find (\<lambda>p. str_find t p \<noteq> - 1) ps of
        None \<Rightarrow> ([], [])
      | Some p \<Rightarrow> (take (nat (str_find t p)) t, drop (nat (str_find t p)) t))"
  by (induction ps) (simp_all add: Let_def slice_from_found slice_to_found)

lemma body_begins_find:
  "body_begins t \<longleftrightarrow> List.find (\<lambda>p. str_find t p \<noteq> - 1) prefix_options \<noteq> None"
  by (auto simp: body_begins_def list_ex_iff find_None_iff)

lemma str_find_slice_to_absent: "str_find s sub = - 1 \<Longrightarrow> str_find (slice_to s i) sub = - 1"
  by (simp add: slice_to_def str_find_take_absent)

lemma str_find_Nil_absent: "str_find s sub = - 1 \<Longrightarrow> str_find [] sub = - 1"
  using str_find_take_absent [of s sub 0] by simp

lemma str_find_working_body_absent:
  assumes "str_find t sub = - 1"
  shows "str_find (working_body t) sub = - 1"
proof (cases "List.find (\<lambda>p. str_find t p \<noteq> - 1) prefix_options")
  case None
  then have "working_body t = slice_to [] (str_find [] print_date_marker)"
    by (simp add: working_body_def split_header_body_find)
  then show ?thesis
    using str_find_Nil_absent [OF assms] by (simp add: str_find_slice_to_absent)
next
  case (Some p)
  then have "working_body t =
      slice_to (drop (nat (str_find t p)) t)
        (str_find (drop (nat (str_find t p)) t) print_date_marker)"
    by (simp add: working_body_def split_header_body_find)
  then show ?thesis
    using str_find_drop_absent [OF assms] by (simp add: str_find_slice_to_absent)
qed

lemmas marker_defs = macro_marker_def diagnosis_marker_def prev_tests_marker_def
  clinical_info_marker_def print_date_marker_def

lemma body_marker_nonempty: "(name, marker) \<in> set body_markers \<Longrightarrow> marker \<noteq> []"
  by (auto simp: body_markers_def marker_defs)

lemma section_entry_marker:
  assumes "(name, marker) \<in> set body_markers"
    and "(name, v) \<in> set (get_partial_content t)"
  shows "\<exists>content. v = Some content \<and> startswith content marker"
proof -
  obtain header body0 where sp: "split_header_body prefix_options t = (header, body0)"
    by (cases "split_header_body prefix_options t")
  let ?new = "snd (segment_spec (working_body t))"
  from assms(1) have name: "name \<noteq> ''General Information''"
    "name \<noteq> ''Document Footer Information''"
    by (auto simp: body_markers_def)
  with assms(2) have "(name, v) \<in> (\<lambda>(name, content). (name, Some content)) ` set ?new"
    by (auto simp: get_partial_content_entries sp)
  then obtain content where v: "v = Some content" and mem: "(name, content) \<in> set ?new"
    by auto
  from mem obtain marker' where m': "(name, marker') \<in> set body_markers"
    and sw: "startswith content marker'"
    unfolding segment_spec_def using segment_fold_marker by blast
  from m' assms(1) have "marker' = marker"
    using body_markers_distinct by (meson eq_key_imp_eq_value)
  with v sw show ?thesis by simp
qed

lemma get_partial_content_keys:
  "map fst (get_partial_content t) =
     ''General Information'' #
     rev (map fst (snd (segment_spec (working_body t)))) @ [''Document Footer Information'']"
  by (cases "split_header_body prefix_options t")
    (simp add: get_partial_content_entries rev_map case_prod_unfold comp_def)

lemma segment_spec_order:
  "rev (map fst (snd (segment_spec body))) =
     filter (\<lambda>name. name \<in> fst ` set (snd (segment_spec body)))
       [''Clinical Information'', ''Previous Tests'', ''Diagnosis'', ''Macroscopic Description'']"
proof -
  have "rev (map fst (snd (segment_spec body))) =
      filter (\<lambda>name. name \<in> fst ` set (snd (segment_spec body))) (rev (map fst body_markers))"
    unfolding segment_spec_def
    by (subst segment_fold_order [OF body_markers_distinct]) (simp only: rev_filter)
  then show ?thesis by (simp only: body_markers_names) simp
qed

lemma get_partial_content_unmarked:
  assumes "\<not> body_begins t"
  shows "get_partial_content t =
     [(''General Information'', Some []), (''Document Footer Information'', Some [])]"
proof -
  from assms have sp: "split_header_body prefix_options t = ([], [])"
    by (simp add: body_begins_find split_header_body_find)
  have f: "str_find [] print_date_marker = - 1" by (simp add: print_date_marker_def)
  have wb: "working_body t = []"
    by (simp add: working_body_def sp f slice_to_def)
  have "segment_spec [] = ([], [])"
    by (simp add: segment_spec_def body_markers_def marker_defs)
  then show ?thesis
    by (simp add: get_partial_content_entries sp wb f slice_from_def)
qed

subsection \<open>Concrete texts\<close>

lemma split_clinical_abc:
  "split_header_body prefix_options (clinical_info_marker @ [97, 98, 99]) =
     ([], clinical_info_marker @ [97, 98, 99])"
  by (simp add: prefix_options_def clinical_info_marker_def slice_to_def slice_from_def)

lemma find_print_date_clinical_abc:
  "str_find (clinical_info_marker @ [97, 98, 99]) print_date_marker = - 1"
  by (simp add: clinical_info_marker_def print_date_marker_def)

lemma working_body_clinical_abc:
  "working_body (clinical_info_marker @ [97, 98, 99]) = clinical_info_marker @ [97, 98]"
  by (simp add: working_body_def split_clinical_abc find_print_date_clinical_abc)
     (simp add: slice_to_def clinical_info_marker_def)

lemma segment_spec_clinical_ab:
  "segment_spec (clinical_info_marker @ [97, 98]) =
     ([], [(''Clinical Information'', clinical_info_marker @ [97, 98])])"
  by (simp add: segment_spec_def body_markers_def marker_defs)

lemma get_partial_content_clinical_abc:
  "get_partial_content (clinical_info_marker @ [97, 98, 99]) =
     [(''General Information'', Some []),
      (''Clinical Information'', Some (clinical_info_marker @ [97, 98])),
      (''Document Footer Information'', Some [99])]"
  by (simp add: get_partial_content_entries split_clinical_abc working_body_clinical_abc
      segment_spec_clinical_ab find_print_date_clinical_abc)
     (simp add: slice_from_def clinical_info_marker_def)

lemma body_begins_clinical_abc: "body_begins (clinical_info_marker @ [97, 98, 99])"
  by (simp add: body_begins_def prefix_options_def clinical_info_marker_def)








lemma not_body_begins_a: "\<not> body_begins [97]"
  by (simp add: body_begins_def prefix_options_def)

lemma not_body_begins_footer_text: "\<not> body_begins (print_date_marker @ [102])"
  by (simp add: body_begins_def prefix_options_def print_date_marker_def)

lemma find_option_priority_text:
  "List.find (\<lambda>p. str_find (8235 # diagnosis_marker @ 97 # clinical_info_marker) p \<noteq> - 1)
     prefix_options = Some clinical_info_marker"
  by (simp add: prefix_options_def marker_defs)

lemma find_clinical_priority_text:
  "str_find (8235 # diagnosis_marker @ 97 # clinical_info_marker) clinical_info_marker = 11"
  by (simp add: marker_defs)

lemma find_third_option_priority_text:
  "str_find (8235 # diagnosis_marker @ 97 # clinical_info_marker) (prefix_options ! 2) = 0"
  by (simp add: prefix_options_def marker_defs)

lemma split_priority_text:
  "split_header_body prefix_options (8235 # diagnosis_marker @ 97 # clinical_info_marker) =
     (8235 # diagnosis_marker @ [97], clinical_info_marker)"
proof -
  let ?t = "8235 # diagnosis_marker @ 97 # clinical_info_marker"
  have "split_header_body prefix_options ?t = (take 11 ?t, drop 11 ?t)"
    by (simp only: split_header_body_find find_option_priority_text option.case
        find_clinical_priority_text) simp
  then show ?thesis by (simp add: diagnosis_marker_def)
qed

lemma find_second_option_priority_text:
  "str_find (8235 # diagnosis_marker @ 97 # clinical_info_marker) (prefix_options ! 1) = - 1"
  by (simp add: prefix_options_def marker_defs)

subsection \<open>The claims about segmentation\<close>




text \<open>
  C2 says that, when the body has no print-date marker, the footer is empty and the whole
  body goes to inner segmentation. The code does otherwise: at a text that begins with
  the Clinical Information marker, goes on with \<open>abc\<close> and has no print-date marker, the
  search returns \<open>-1\<close>, the last character of the body becomes the footer, and inner
  segmentation gets the body without it.
\<close>

theorem footer_without_print_date_marker:
  "str_find (snd (split_header_body prefix_options (clinical_info_marker @ [97, 98, 99])))
     print_date_marker = - 1 \<and>
   working_body (clinical_info_marker @ [97, 98, 99]) = clinical_info_marker @ [97, 98] \<and>
   get_partial_content (clinical_info_marker @ [97, 98, 99]) =
     [(''General Information'', Some []),
      (''Clinical Information'', Some (clinical_info_marker @ [97, 98])),
      (''Document Footer Information'', Some [99])]"
  by (simp only: split_clinical_abc snd_conv find_print_date_clinical_abc
      working_body_clinical_abc get_partial_content_clinical_abc simp_thms)

text \<open>
  C4. Inner segmentation is the rule of the specification: the markers are tried in the
  order Macroscopic Description, Diagnosis, Previous Tests, Clinical Information; what
  \<open>get_pathology_body_parts\<close> leaves of the body and what it collects are what the fold
  of \<open>segment_step\<close> over that list leaves and collects, where a marker found in the
  remaining text takes everything from its position to the end of the remaining text and
  the remaining text is cut there; the answer holds the collected sections in reverse;
  a step only ever shortens the remaining text to one of its prefixes, and so what is
  left at the end is a prefix of the body.
\<close>

theorem body_sections_by_priority:
  "map fst body_markers =
     [''Macroscopic Description'', ''Diagnosis'', ''Previous Tests'', ''Clinical Information''] \<and>
   fst (carve_body body) = fst (segment_spec body) \<and>
   fst (snd (carve_body body)) = snd (segment_spec body) \<and>
   get_pathology_body_parts body =
     map (\<lambda>(name, content). (name, Some content)) (rev (snd (segment_spec body))) \<and>
   prefix (fst (segment_step (remaining, collected) (name, marker))) remaining \<and>
   prefix (fst (carve_body body)) body"
  using carve_body_spec [of body]
    segment_step_shrinks [of "(remaining, collected)" "(name, marker)"]
    segment_fold_shrinks [of "(body, [])" body_markers]
  by (simp only: body_markers_names fst_conv simp_thms segment_spec_def)

text \<open>
  C5, as amended. Let \<open>p\<close> be the first marker of \<open>prefix_options\<close>, in the order of that
  list (Clinical Information, Previous Tests, Diagnosis), that occurs anywhere in the
  text, and \<open>i\<close> its first position there. Then the header is the text before \<open>i\<close>,
  stored under General Information, and the body is the text from \<open>i\<close> on, which begins
  with \<open>p\<close>; \<open>p\<close> occurs at no earlier position. A marker later in the list that occurs
  before \<open>i\<close> stays in the header.
\<close>

theorem outer_split_at_first_marker:
  assumes "List.find (\<lambda>p. str_find t p \<noteq> - 1) prefix_options = Some p"
  shows "split_header_body prefix_options t =
       (take (nat (str_find t p)) t, drop (nat (str_find t p)) t) \<and>
     startswith (drop (nat (str_find t p)) t) p \<and>
     (\<forall>j < nat (str_find t p). \<not> startswith (drop j t) p) \<and>
     dict_get (get_partial_content t) ''General Information'' =
       Some (Some (take (nat (str_find t p)) t))"
proof -
  from assms have found: "str_find t p \<noteq> - 1"
    by (auto simp: find_Some_iff)
  have sp: "split_header_body prefix_options t =
      (take (nat (str_find t p)) t, drop (nat (str_find t p)) t)"
    by (simp add: split_header_body_find assms)
  have least: "\<not> startswith (drop j t) p" if "j < nat (str_find t p)" for j
    using that str_find_least [OF found, of j] by simp
  have "dict_get (get_partial_content t) ''General Information'' =
      Some (Some (take (nat (str_find t p)) t))"
    by (simp add: get_partial_content_entries sp dict_get_def)
  with sp least str_find_startswith [OF found] show ?thesis by blast
qed

theorem outer_split_at_first_marker_witness:
  "List.find (\<lambda>p. str_find (8235 # diagnosis_marker @ 97 # clinical_info_marker) p \<noteq> - 1)
     prefix_options = Some clinical_info_marker \<and>
   str_find (8235 # diagnosis_marker @ 97 # clinical_info_marker) (prefix_options ! 2) = 0 \<and>
   split_header_body prefix_options (8235 # diagnosis_marker @ 97 # clinical_info_marker) =
     (8235 # diagnosis_marker @ [97], clinical_info_marker) \<and>
   dict_get (get_partial_content (8235 # diagnosis_marker @ 97 # clinical_info_marker))
     ''General Information'' = Some (Some (8235 # diagnosis_marker @ [97]))"
proof -
  let ?t = "8235 # diagnosis_marker @ 97 # clinical_info_marker"
  let ?i = "nat (str_find ?t clinical_info_marker)"
  note w = outer_split_at_first_marker [OF find_option_priority_text]
  from w have sp: "split_header_body prefix_options ?t = (take ?i ?t, drop ?i ?t)"
    by (rule conjunct1)
  from w have gi: "dict_get (get_partial_content ?t) ''General Information'' =
      Some (Some (take ?i ?t))"
    by (elim conjE)
  have tk: "take ?i ?t = 8235 # diagnosis_marker @ [97]"
    by (simp only: find_clinical_priority_text) (simp add: diagnosis_marker_def)
  have dr: "drop ?i ?t = clinical_info_marker"
    by (simp only: find_clinical_priority_text) (simp add: diagnosis_marker_def)
  from sp gi show ?thesis
    by (simp only: tk dr find_option_priority_text find_third_option_priority_text simp_thms)
qed

text \<open>
  C5 as stated fails: the header is not always what precedes the marker that occurs
  first in the text. In the text U+202B, Diagnosis marker, \<open>a\<close>, Clinical Information
  marker, the third option of \<open>prefix_options\<close> occurs at position 0 and the second
  nowhere, but the split is at position 11, where the first option occurs: General
  Information is not empty and begins with a marker of \<open>prefix_options\<close>.
\<close>

theorem outer_split_earliest_marker_counterexample:
  "str_find (8235 # diagnosis_marker @ 97 # clinical_info_marker) (prefix_options ! 2) = 0 \<and>
   str_find (8235 # diagnosis_marker @ 97 # clinical_info_marker) (prefix_options ! 1) = - 1 \<and>
   str_find (8235 # diagnosis_marker @ 97 # clinical_info_marker) (prefix_options ! 0) = 11 \<and>
   dict_get (get_partial_content (8235 # diagnosis_marker @ 97 # clinical_info_marker))
     ''General Information'' = Some (Some (8235 # diagnosis_marker @ [97])) \<and>
   startswith (8235 # diagnosis_marker @ [97]) (prefix_options ! 2) \<and>
   split_header_body prefix_options (8235 # diagnosis_marker @ 97 # clinical_info_marker) \<noteq>
     ([], 8235 # diagnosis_marker @ 97 # clinical_info_marker)"
proof -
  let ?t = "8235 # diagnosis_marker @ 97 # clinical_info_marker"
  have o0: "prefix_options ! 0 = clinical_info_marker"
    by (simp add: prefix_options_def clinical_info_marker_def)
  have gi: "dict_get (get_partial_content ?t) ''General Information'' =
      Some (Some (8235 # diagnosis_marker @ [97]))"
    by (simp add: get_partial_content_entries split_priority_text dict_get_def)
  have sw: "startswith (8235 # diagnosis_marker @ [97]) (prefix_options ! 2)"
    by (simp add: prefix_options_def diagnosis_marker_def)
  have ne: "split_header_body prefix_options ?t \<noteq> ([], ?t)"
    by (simp only: split_priority_text) simp
  from gi sw ne show ?thesis
    by (simp only: find_third_option_priority_text find_second_option_priority_text o0
        find_clinical_priority_text simp_thms)
qed

text \<open>
  C6. The keys of the result, in insertion order, are General Information, then those of
  Clinical Information, Previous Tests, Diagnosis, Macroscopic Description, in this
  order, whose marker was found in its search window (the names that the rule collected),
  then Document Footer Information. A marker that does not occur in the text gives no
  entry, and the value of a body section is a string that is not empty.
\<close>

theorem section_map_insertion_order:
  "map fst (get_partial_content t) =
     ''General Information'' #
     filter (\<lambda>name. name \<in> fst ` set (snd (segment_spec (working_body t))))
       [''Clinical Information'', ''Previous Tests'', ''Diagnosis'', ''Macroscopic Description''] @
     [''Document Footer Information''] \<and>
   (\<forall>(name, marker) \<in> set body_markers.
      (str_find t marker = - 1 \<longrightarrow> name \<notin> set (map fst (get_partial_content t))) \<and>
      (\<forall>v. (name, v) \<in> set (get_partial_content t) \<longrightarrow>
         (\<exists>content. v = Some content \<and> content \<noteq> [])))"
proof (intro conjI ballI, goal_cases)
  case 1
  show ?case by (simp only: get_partial_content_keys segment_spec_order)
next
  case (2 x)
  obtain name marker where x: "x = (name, marker)" by (cases x)
  with 2 have mem: "(name, marker) \<in> set body_markers" by simp
  then have name: "name \<noteq> ''General Information''" "name \<noteq> ''Document Footer Information''"
    by (auto simp: body_markers_def)
  have absent: "name \<notin> set (map fst (get_partial_content t))" if "str_find t marker = - 1"
  proof -
    from that have "str_find (working_body t) marker = - 1"
      by (rule str_find_working_body_absent)
    then have "name \<notin> fst ` set (snd (segment_spec (working_body t)))"
      unfolding segment_spec_def
      using segment_fold_absent [OF mem body_markers_distinct] by blast
    with name show ?thesis by (simp add: get_partial_content_keys)
  qed
  have filled: "\<exists>content. v = Some content \<and> content \<noteq> []"
    if "(name, v) \<in> set (get_partial_content t)" for v
  proof -
    from section_entry_marker [OF mem that] obtain content
      where "v = Some content" and "startswith content marker" by blast
    moreover from body_marker_nonempty [OF mem] obtain c cs where "marker = c # cs"
      by (cases marker) auto
    ultimately show ?thesis by (cases content) auto
  qed
  from absent filled show ?case by (simp add: x)
qed

theorem section_map_insertion_order_witness:
  "map fst (get_partial_content (clinical_info_marker @ [97, 98, 99])) =
     [''General Information'', ''Clinical Information'', ''Document Footer Information''] \<and>
   (''Macroscopic Description'', macro_marker) \<in> set body_markers \<and>
   str_find (clinical_info_marker @ [97, 98, 99]) macro_marker = - 1 \<and>
   ''Macroscopic Description'' \<notin>
     set (map fst (get_partial_content (clinical_info_marker @ [97, 98, 99]))) \<and>
   (''Clinical Information'', Some (clinical_info_marker @ [97, 98])) \<in>
     set (get_partial_content (clinical_info_marker @ [97, 98, 99]))"
proof -
  let ?t = "clinical_info_marker @ [97, 98, 99]"
  have m: "(''Macroscopic Description'', macro_marker) \<in> set body_markers"
    by (simp add: body_markers_def)
  have a: "str_find ?t macro_marker = - 1"
    by (simp add: marker_defs)
  note w = section_map_insertion_order [of ?t, THEN conjunct2, THEN bspec, OF m]
  from w have "str_find ?t macro_marker = - 1 \<longrightarrow>
      ''Macroscopic Description'' \<notin> set (map fst (get_partial_content ?t))"
    by (simp only: prod.case) (rule conjunct1)
  with a have "''Macroscopic Description'' \<notin> set (map fst (get_partial_content ?t))"
    by (rule rev_mp)
  with m a show ?thesis by (simp add: get_partial_content_clinical_abc)
qed

text \<open>
  C9, as amended. With no marker of \<open>prefix_options\<close> in the text the result has the two
  synthetic keys only, and both values are empty: the footer is searched for in the empty
  body, not in the text.
\<close>

theorem unmarked_text_gives_empty_sections:
  assumes "\<not> body_begins t"
  shows "get_partial_content t =
     [(''General Information'', Some []), (''Document Footer Information'', Some [])]"
  using assms by (rule get_partial_content_unmarked)

theorem unmarked_text_gives_empty_sections_witness:
  "\<not> body_begins [97] \<and>
   get_partial_content [97] =
     [(''General Information'', Some []), (''Document Footer Information'', Some [])]"
  using unmarked_text_gives_empty_sections [OF not_body_begins_a] not_body_begins_a by simp

text \<open>
  C9 as stated fails: the text is the print-date marker and one more character, with no
  marker of \<open>prefix_options\<close>. A footer search over the whole text finds the marker at 0
  and would make the whole text the footer; the footer of the result is empty.
\<close>

theorem footer_search_over_text_counterexample:
  "\<not> body_begins (print_date_marker @ [102]) \<and>
   slice_from (print_date_marker @ [102])
     (str_find (print_date_marker @ [102]) print_date_marker) = print_date_marker @ [102] \<and>
   dict_get (get_partial_content (print_date_marker @ [102])) ''Document Footer Information'' =
     Some (Some []) \<and>
   print_date_marker @ [102] \<noteq> []"
  by (simp add: get_partial_content_unmarked [OF not_body_begins_footer_text]
      not_body_begins_footer_text dict_get_def)
     (simp add: print_date_marker_def slice_from_def)

text \<open>
  C10. Every body section of the result begins with its own marker: a value stored under
  the name of a marker is a string of which that marker is a prefix.
\<close>

theorem section_value_starts_with_marker:
  assumes "(name, marker) \<in> set body_markers"
    and "dict_get (get_partial_content t) name = Some v"
  shows "\<exists>content. v = Some content \<and> startswith content marker"
  using assms section_entry_marker [of name marker v t]
  unfolding dict_get_def by (blast dest: map_of_SomeD)

theorem section_value_starts_with_marker_witness:
  "(''Clinical Information'', clinical_info_marker) \<in> set body_markers \<and>
   dict_get (get_partial_content (clinical_info_marker @ [97, 98, 99])) ''Clinical Information'' =
     Some (Some (clinical_info_marker @ [97, 98])) \<and>
   startswith (clinical_info_marker @ [97, 98]) clinical_info_marker"
proof -
  have m: "(''Clinical Information'', clinical_info_marker) \<in> set body_markers"
    by (simp add: body_markers_def)
  have g: "dict_get (get_partial_content (clinical_info_marker @ [97, 98, 99]))
      ''Clinical Information'' = Some (Some (clinical_info_marker @ [97, 98]))"
    by (simp add: get_partial_content_clinical_abc dict_get_def)
  from section_value_starts_with_marker [OF m g] m g show ?thesis by simp
qed

subsection \<open>Runs\<close>

lemma then_run_Inl: "then_run (log, Inl e) f = (log, Inl e)"
  by (simp add: then_run_def)

lemma then_run_Inr: "then_run (log, Inr x) f = (log @ fst (f x), snd (f x))"
  by (simp add: then_run_def case_prod_unfold)

lemma then_run_value:
  "then_run m (\<lambda>x. ([], Inr (g x))) = (fst m, map_sum id g (snd m))"
  by (cases m, cases "snd m") (simp_all add: then_run_def)

lemma text_per_page_pages:
  "map (image_to_string env) images = map Some pages \<Longrightarrow>
     text_per_page env images = (replicate (length images) Recognize, Inr pages)"
proof (induction images arbitrary: pages)
  case Nil
  then show ?case by simp
next
  case (Cons img images)
  then obtain page rest where pages: "pages = page # rest"
    and page: "image_to_string env img = Some page"
    and rest: "map (image_to_string env) images = map Some rest"
    by (cases pages) auto
  from Cons.IH [OF rest] page show ?case by (simp add: pages)
qed

lemma upload_text_pdf:
  assumes "split_on 44 contents = [content_type, content_string]"
    and "b64decode env content_string = Some decoded"
    and "endswith (lower file_name) [46, 112, 100, 102]"
    and "pdftotext_PDF env decoded = Some pdf"
  shows "upload_text env (Some contents) file_name =
      (if strip (join [10, 10] pdf) \<noteq> [] \<and> 20 \<le> length (join [10, 10] pdf)
       then ([NativeText], Inr (join [10, 10] pdf))
       else (case convert_from_bytes env decoded of
               None \<Rightarrow> ([NativeText, Rasterize], Inl ExtractionError)
             | Some images \<Rightarrow>
                 (NativeText # Rasterize # fst (extract_text_from_images env images),
                  snd (extract_text_from_images env images))))"
  using assms
  by (simp add: upload_text_def extract_text_from_pdf_def pdf_to_images_def then_run_Inr
      then_run_Inl not_le split: option.split)

lemma upload_text_not_pdf:
  assumes "\<not> endswith (lower file_name) [46, 112, 100, 102]"
  shows "upload_text env file_content file_name \<in>
     {([], Inl PreventUpdate), ([], Inl ValueError), ([], Inl DecodeError)}"
  using assms by (simp add: upload_text_def split: option.split list.split)

lemma upload_text_not_pdf_decoded:
  assumes "\<not> endswith (lower file_name) [46, 112, 100, 102]"
    and "split_on 44 contents = [content_type, content_string]"
    and "b64decode env content_string = Some decoded"
  shows "upload_text env (Some contents) file_name = ([], Inl PreventUpdate)"
  using assms by (simp add: upload_text_def)

lemma update_output_tab2_run:
  "update_output_tab2 env file_content file_name =
     (fst (update_output_tab1 env file_content file_name),
      map_sum id (\<lambda>text. get_partial_content ([39, 8235, 39] @ text @ [39, 8236, 39]))
        (snd (update_output_tab1 env file_content file_name)))"
  by (simp add: update_output_tab2_def update_output_tab1_def then_run_value)

subsection \<open>The claims about extraction\<close>

text \<open>
  C7, as amended. When recognition succeeds on every page image, the text returned by
  \<open>extract_text_from_images\<close> is the texts of the pages, in page order, with one newline
  character (code point 10) between consecutive pages, and recognition was called once
  for each image.
\<close>

theorem page_texts_joined_by_newline:
  assumes "map (image_to_string env) images = map Some pages"
  shows "extract_text_from_images env images =
     (replicate (length images) Recognize, Inr (join [10] pages))"
  using text_per_page_pages [OF assms]
  by (simp add: extract_text_from_images_def then_run_Inr)

theorem page_texts_joined_by_newline_witness:
  "map (image_to_string example_capabilities) [[97], [98]] = map Some [[97], [98]] \<and>
   extract_text_from_images example_capabilities [[97], [98]] =
     ([Recognize, Recognize], Inr [97, 10, 98])"
proof -
  have m: "map (image_to_string example_capabilities) [[97], [98]] = map Some [[97], [98]]"
    by (simp add: example_capabilities_def)
  from page_texts_joined_by_newline [OF m] m show ?thesis by simp
qed

text \<open>
  C7 as stated fails: two pages recognised as \<open>a\<close> and \<open>b\<close> give \<open>a\<close>, newline, \<open>b\<close>.
  With a blank line between them the text would be \<open>a\<close>, newline, newline, \<open>b\<close>.
\<close>

theorem page_texts_blank_line_counterexample:
  "image_to_string example_capabilities [97] = Some [97] \<and>
   image_to_string example_capabilities [98] = Some [98] \<and>
   snd (extract_text_from_images example_capabilities [[97], [98]]) = Inr [97, 10, 98] \<and>
   snd (extract_text_from_images example_capabilities [[97], [98]]) \<noteq>
     Inr (join [10, 10] [[97], [98]])"
  by (simp add: example_capabilities_def extract_text_from_images_def then_run_def)

text \<open>
  C8. An upload whose file name, in lower case, does not end in \<open>.pdf\<close> yields no text
  and no sections: both callbacks end in an exception, which is \<open>PreventUpdate\<close> when the
  upload itself is well formed, and neither calls native extraction, rasterisation or
  recognition.
\<close>

theorem non_pdf_upload_rejected:
  assumes "\<not> endswith (lower file_name) [46, 112, 100, 102]"
  shows "fst (update_output_tab1 env file_content file_name) = [] \<and>
     isl (snd (update_output_tab1 env file_content file_name)) \<and>
     fst (update_output_tab2 env file_content file_name) = [] \<and>
     isl (snd (update_output_tab2 env file_content file_name)) \<and>
     (\<forall>contents content_type content_string decoded.
        file_content = Some contents \<and>
        split_on 44 contents = [content_type, content_string] \<and>
        b64decode env content_string = Some decoded \<longrightarrow>
        update_output_tab1 env file_content file_name = ([], Inl PreventUpdate) \<and>
        update_output_tab2 env file_content file_name = ([], Inl PreventUpdate))"
proof -
  from upload_text_not_pdf [OF assms, of env file_content]
  have "fst (update_output_tab1 env file_content file_name) = [] \<and>
     isl (snd (update_output_tab1 env file_content file_name))"
    by (auto simp: update_output_tab1_def)
  moreover have "update_output_tab1 env file_content file_name = ([], Inl PreventUpdate)"
    if "file_content = Some contents" "split_on 44 contents = [content_type, content_string]"
      "b64decode env content_string = Some decoded"
    for contents content_type content_string decoded
    using upload_text_not_pdf_decoded [OF assms that(2,3)] that(1)
    by (simp add: update_output_tab1_def)
  ultimately show ?thesis
    by (simp add: update_output_tab2_run isl_map_sum)
qed

theorem non_pdf_upload_rejected_witness:
  "\<not> endswith (lower [70, 46, 80, 78, 71]) [46, 112, 100, 102] \<and>
   split_on 44 [120, 44, 97 :: nat] = [[120], [97]] \<and>
   b64decode example_capabilities [97] = Some [97] \<and>
   update_output_tab1 example_capabilities (Some [120, 44, 97]) [70, 46, 80, 78, 71] =
     ([], Inl PreventUpdate) \<and>
   update_output_tab2 example_capabilities (Some [120, 44, 97]) [70, 46, 80, 78, 71] =
     ([], Inl PreventUpdate)"
proof -
  have n: "\<not> endswith (lower [70, 46, 80, 78, 71]) [46, 112, 100, 102]"
    by (simp add: endswith_def lower_def)
  have s: "split_on 44 [120, 44, 97 :: nat] = [[120], [97]]" by simp
  have d: "b64decode example_capabilities [97] = Some [97]"
    by (simp add: example_capabilities_def)
  from non_pdf_upload_rejected [OF n, of example_capabilities "Some [120, 44, 97]"] s d
  have "update_output_tab1 example_capabilities (Some [120, 44, 97]) [70, 46, 80, 78, 71] =
     ([], Inl PreventUpdate) \<and>
   update_output_tab2 example_capabilities (Some [120, 44, 97]) [70, 46, 80, 78, 71] =
     ([], Inl PreventUpdate)"
    by blast
  with n s d show ?thesis by simp
qed

text \<open>
  C3, as amended. For the upload of a PDF whose text layer can be read, the native text
  is kept, and nothing else is called, if and only if it is not blank after stripping and
  its own length, not the stripped one, is at least 20; otherwise the pages are rasterised
  and recognised, and the result is that of the OCR path. \<open>update_output_tab2\<close> takes
  the same path and segments the text it gets.
\<close>

theorem native_text_kept_iff_long_and_not_blank:
  assumes "split_on 44 contents = [content_type, content_string]"
    and "b64decode env content_string = Some decoded"
    and "endswith (lower file_name) [46, 112, 100, 102]"
    and "pdftotext_PDF env decoded = Some pdf"
  shows "update_output_tab1 env (Some contents) file_name =
      (if strip (join [10, 10] pdf) \<noteq> [] \<and> 20 \<le> length (join [10, 10] pdf)
       then ([NativeText], Inr (join [10, 10] pdf))
       else (case convert_from_bytes env decoded of
               None \<Rightarrow> ([NativeText, Rasterize], Inl ExtractionError)
             | Some images \<Rightarrow>
                 (NativeText # Rasterize # fst (extract_text_from_images env images),
                  snd (extract_text_from_images env images)))) \<and>
     update_output_tab2 env (Some contents) file_name =
      (fst (update_output_tab1 env (Some contents) file_name),
       map_sum id (\<lambda>text. get_partial_content ([39, 8235, 39] @ text @ [39, 8236, 39]))
         (snd (update_output_tab1 env (Some contents) file_name)))"
  using upload_text_pdf [OF assms]
  by (simp only: update_output_tab2_run update_output_tab1_def simp_thms)

lemma example_upload:
  assumes "(44::nat) \<notin> set s"
  shows "split_on 44 (120 # 44 # s) = [[120], s]"
proof -
  from assms have "split_on 44 s = [s]"
    by (induction s) (auto split: list.splits)
  then show ?thesis by simp
qed

lemma pdf_name: "endswith (lower [70, 46, 80, 68, 70]) [46, 112, 100, 102]"
  by (simp add: endswith_def lower_def)

lemma example_ocr:
  "extract_text_from_images example_capabilities [[97], [98]] =
     ([Recognize, Recognize], Inr [97, 10, 98])"
  by (simp add: example_capabilities_def extract_text_from_images_def then_run_def)

theorem native_text_kept_iff_long_and_not_blank_witness:
  "update_output_tab1 example_capabilities
     (Some (120 # 44 # [97, 97, 97, 97, 97, 97, 97, 97, 97, 97,
                        97, 97, 97, 97, 97, 97, 97, 97, 97, 97]))
     [70, 46, 80, 68, 70] =
     ([NativeText], Inr [97, 97, 97, 97, 97, 97, 97, 97, 97, 97,
                         97, 97, 97, 97, 97, 97, 97, 97, 97, 97]) \<and>
   update_output_tab1 example_capabilities
     (Some (120 # 44 # [97, 97, 97, 97, 97, 97, 97, 97, 97, 97,
                        97, 97, 97, 97, 97, 97, 97, 97, 97]))
     [70, 46, 80, 68, 70] =
     ([NativeText, Rasterize, Recognize, Recognize], Inr [97, 10, 98]) \<and>
   update_output_tab1 example_capabilities
     (Some (120 # 44 # [32, 32, 32, 32, 32, 32, 32, 32, 32, 32,
                        32, 32, 32, 32, 32, 32, 32, 32, 32, 32, 32, 32]))
     [70, 46, 80, 68, 70] =
     ([NativeText, Rasterize, Recognize, Recognize], Inr [97, 10, 98])"
proof -
  have dec: "b64decode example_capabilities s = Some s"
    and pdf: "pdftotext_PDF example_capabilities s = Some [s]"
    and img: "convert_from_bytes example_capabilities s = Some [[97], [98]]" for s
    by (simp_all add: example_capabilities_def)
  have up: "split_on 44 (120 # 44 # s) = [[120], s]" if "44 \<notin> set s" for s :: ustr
    using that by (rule example_upload)
  note w = native_text_kept_iff_long_and_not_blank [OF up dec pdf_name pdf, THEN conjunct1]
  show ?thesis
    by (intro conjI; subst w) (simp_all add: img example_ocr strip_def isspace_def)
qed

text \<open>
  C3 as stated fails: the native text \<open>a\<close> followed by 19 spaces has length 1 after
  stripping, and it is kept.
\<close>

theorem native_text_stripped_length_counterexample:
  "length (strip [97, 32, 32, 32, 32, 32, 32, 32, 32, 32,
                  32, 32, 32, 32, 32, 32, 32, 32, 32, 32]) = 1 \<and>
   update_output_tab1 example_capabilities
     (Some (120 # 44 # [97, 32, 32, 32, 32, 32, 32, 32, 32, 32,
                        32, 32, 32, 32, 32, 32, 32, 32, 32, 32]))
     [70, 46, 80, 68, 70] =
     ([NativeText], Inr [97, 32, 32, 32, 32, 32, 32, 32, 32, 32,
                         32, 32, 32, 32, 32, 32, 32, 32, 32, 32])"
proof -
  have dec: "b64decode example_capabilities s = Some s"
    and pdf: "pdftotext_PDF example_capabilities s = Some [s]" for s
    by (simp_all add: example_capabilities_def)
  have up: "split_on 44 (120 # 44 # s) = [[120], s]" if "44 \<notin> set s" for s :: ustr
    using that by (rule example_upload)
  show ?thesis
    by (intro conjI, simp add: strip_def isspace_def,
        subst upload_text_pdf [OF up dec pdf_name pdf, folded update_output_tab1_def])
      (simp_all add: strip_def isspace_def)
qed

end
